theory Spec2Isabelle
  imports Complex_Main
begin

section \<open>Data model of the drawing canvas (DrawingCanvas.tsx)\<close>

text \<open>
  JavaScript numbers are modelled as reals. Optional fields (\<open>points?\<close>, \<open>id?\<close>, ...)
  are options; a field that is tested for truthiness is truthy when it is present and,
  for a number, non-zero, for a string, non-empty; arrays and objects are truthy
  whenever they are present.
\<close>

record Point =
  x :: real
  y :: real

record TextFormat =
  font :: string
  fontSize :: real
  bold :: bool
  italic :: bool
  underline :: bool
  strikethrough :: bool

datatype Tool =
  Select | SelectionArea | Brush | Eraser | StrokeEraser
  | Rectangle | Circle | Line | Arrow | TextTool

text \<open>The \<open>type\<close> field of an element is \<open>Tool | 'image'\<close>.\<close>

datatype ElementType = OfTool Tool | Image

record DrawingElement =
  type :: ElementType
  points :: "Point list option"
  startPoint :: "Point option"
  endPoint :: "Point option"
  color :: string
  brushSize :: real
  opacity :: real
  text_el :: "string option"
  textFormat_el :: "TextFormat option"
  imageData :: "string option"
  width :: "real option"
  height :: "real option"
  id_el :: "string option"
  isTemporary :: "bool option"
  isGeneratedAi :: "bool option"

record DrawingSettings =
  settingsColor :: string
  settingsBrushSize :: real
  settingsOpacity :: real

record SelectionRect =
  rectStart :: Point
  rectEnd :: Point

text \<open>The component state: one field for each \<open>useState\<close> of \<open>DrawingCanvas\<close>.\<close>

record State =
  isDrawing :: bool
  elements :: "DrawingElement list"
  currentElement :: "DrawingElement option"
  history :: "DrawingElement list list"
  historyStep :: nat
  scale :: real
  offset :: Point
  isPanning :: bool
  panStart :: Point
  isSelectionMode :: bool
  selectionRect :: "SelectionRect option"
  isSelecting :: bool
  selectedElementId :: "string option"
  isDragging :: bool
  dragStart :: "Point option"
  hasDragStarted :: bool
  showTextPanel :: bool
  textInput :: string
  textPosition :: "Point option"
  textFormat :: TextFormat

definition defaultTextFormat :: TextFormat where
  "defaultTextFormat =
     \<lparr>font = ''Inter'', fontSize = 24, bold = False, italic = False,
      underline = False, strikethrough = False\<rparr>"

definition initialState :: State where
  "initialState =
     \<lparr>isDrawing = False, elements = [], currentElement = None, history = [],
      historyStep = 0, scale = 1, offset = \<lparr>x = 0, y = 0\<rparr>, isPanning = False,
      panStart = \<lparr>x = 0, y = 0\<rparr>, isSelectionMode = False, selectionRect = None,
      isSelecting = False, selectedElementId = None, isDragging = False,
      dragStart = None, hasDragStarted = False, showTextPanel = False,
      textInput = [], textPosition = None, textFormat = defaultTextFormat\<rparr>"

section \<open>History manager\<close>

text \<open>
  Every handler reads the state of the render it was created in and queues its updates;
  a handler is therefore a function from the state it reads to the state after its
  updates.
\<close>

definition saveToHistory :: "DrawingElement list \<Rightarrow> State \<Rightarrow> State" where
  "saveToHistory newElements s =
     (let newHistory = take (historyStep s + 1) (history s) @ [newElements]
      in s\<lparr>history := newHistory, historyStep := length newHistory - 1\<rparr>)"

text \<open>
  A commit is the pair \<open>setElements(newElements); saveToHistory(newElements)\<close> that
  ends every finalised draw, erase and text operation.
\<close>

definition commit :: "DrawingElement list \<Rightarrow> State \<Rightarrow> State" where
  "commit newElements s = saveToHistory newElements (s\<lparr>elements := newElements\<rparr>)"

text \<open>\<open>history[i] || []\<close>: an index outside the array reads \<open>undefined\<close>.\<close>

definition snapshotOrEmpty :: "DrawingElement list list \<Rightarrow> nat \<Rightarrow> DrawingElement list" where
  "snapshotOrEmpty h i = (if i < length h then h ! i else [])"

definition handleUndo :: "State \<Rightarrow> State" where
  "handleUndo s =
     (if historyStep s > 0
      then s\<lparr>historyStep := historyStep s - 1,
             elements := snapshotOrEmpty (history s) (historyStep s - 1)\<rparr>
      else s)"

definition handleRedo :: "State \<Rightarrow> State" where
  "handleRedo s =
     (if int (historyStep s) < int (length (history s)) - 1
      then s\<lparr>historyStep := historyStep s + 1,
             elements := history s ! (historyStep s + 1)\<rparr>
      else s)"

definition handleClear :: "State \<Rightarrow> State" where
  "handleClear s =
     s\<lparr>elements := [], history := [elements s], historyStep := length (history s)\<rparr>"

datatype HistoryOp = Commit "DrawingElement list" | Undo | Redo | Clear

fun applyOp :: "State \<Rightarrow> HistoryOp \<Rightarrow> State" where
  "applyOp s (Commit l) = commit l s"
| "applyOp s Undo = handleUndo s"
| "applyOp s Redo = handleRedo s"
| "applyOp s Clear = handleClear s"

definition runOps :: "HistoryOp list \<Rightarrow> State \<Rightarrow> State" where
  "runOps ops s = foldl applyOp s ops"

definition commitAll :: "DrawingElement list list \<Rightarrow> State \<Rightarrow> State" where
  "commitAll ls s = foldl (\<lambda>s l. commit l s) s ls"

section \<open>Eraser engine (the two eraser branches of handleMouseUp)\<close>

definition distance :: "Point \<Rightarrow> Point \<Rightarrow> real" where
  "distance p q = sqrt ((x p - x q)\<^sup>2 + (y p - y q)\<^sup>2)"

text \<open>
  The inner loop over the eraser path: the flag is set at the first eraser point closer
  than \<open>eraserSize / 2\<close>.
\<close>

fun shouldErase :: "Point list \<Rightarrow> real \<Rightarrow> Point \<Rightarrow> bool" where
  "shouldErase [] eraserSize point = False"
| "shouldErase (eraserPoint # rest) eraserSize point =
     (if distance point eraserPoint < eraserSize / 2 then True
      else shouldErase rest eraserSize point)"

text \<open>
  The loop over the points of a brush stroke: \<open>segments\<close> and \<open>currentSegment\<close> are
  the two accumulators of the source.
\<close>

fun splitSegments ::
  "Point list \<Rightarrow> real \<Rightarrow> Point list \<Rightarrow> Point list list \<Rightarrow> Point list \<Rightarrow> Point list list" where
  "splitSegments eraserPoints eraserSize [] segments currentSegment =
     (if length currentSegment > 1 then segments @ [currentSegment] else segments)"
| "splitSegments eraserPoints eraserSize (point # rest) segments currentSegment =
     (if shouldErase eraserPoints eraserSize point
      then splitSegments eraserPoints eraserSize rest
             (if length currentSegment > 1 then segments @ [currentSegment] else segments) []
      else splitSegments eraserPoints eraserSize rest segments (currentSegment @ [point]))"

text \<open>
  The loop that pushes one element for each segment. \<open>segment === segments[0]\<close>
  compares array references, so it holds for the first segment only. \<open>generateId\<close>
  draws on \<open>Math.random\<close>: \<open>gen k\<close> is the identifier returned by the call number
  \<open>k\<close> of one handler run, and the counter of calls is threaded through.
\<close>

fun segmentElements ::
  "(nat \<Rightarrow> string) \<Rightarrow> nat \<Rightarrow> DrawingElement \<Rightarrow> bool \<Rightarrow> Point list list
     \<Rightarrow> DrawingElement list \<times> nat" where
  "segmentElements gen n element isFirst [] = ([], n)"
| "segmentElements gen n element isFirst (segment # rest) =
     (if isFirst
      then (case segmentElements gen n element False rest of
              (others, n') \<Rightarrow> (element\<lparr>points := Some segment, id_el := id_el element\<rparr> # others, n'))
      else (case segmentElements gen (n + 1) element False rest of
              (others, n') \<Rightarrow> (element\<lparr>points := Some segment, id_el := Some (gen n)\<rparr> # others, n')))"

text \<open>The nested loops over the points of an element and the eraser path.\<close>

fun pointsTouched :: "Point list \<Rightarrow> real \<Rightarrow> Point list \<Rightarrow> bool" where
  "pointsTouched eraserPoints eraserSize [] = False"
| "pointsTouched eraserPoints eraserSize (point # rest) =
     (if shouldErase eraserPoints eraserSize point then True
      else pointsTouched eraserPoints eraserSize rest)"

text \<open>The loop over the eraser path for an element with a start point.\<close>

fun shapeTouched :: "Point list \<Rightarrow> real \<Rightarrow> Point \<Rightarrow> Point option \<Rightarrow> bool" where
  "shapeTouched [] eraserSize sp ep = False"
| "shapeTouched (eraserPoint # rest) eraserSize sp ep =
     (if distance sp eraserPoint < eraserSize / 2 then True
      else (case ep of
              None \<Rightarrow> shapeTouched rest eraserSize sp ep
            | Some e \<Rightarrow>
                if distance e eraserPoint < eraserSize / 2 then True
                else shapeTouched rest eraserSize sp ep))"

definition shouldDelete :: "Point list \<Rightarrow> real \<Rightarrow> DrawingElement \<Rightarrow> bool" where
  "shouldDelete eraserPoints eraserSize element =
     (case points element of
        Some ps \<Rightarrow> pointsTouched eraserPoints eraserSize ps
      | None \<Rightarrow>
          (case startPoint element of
             Some sp \<Rightarrow> shapeTouched eraserPoints eraserSize sp (endPoint element)
           | None \<Rightarrow> False))"

definition isEraserElement :: "DrawingElement \<Rightarrow> bool" where
  "isEraserElement element \<longleftrightarrow>
     type element = OfTool Eraser \<or> type element = OfTool StrokeEraser"

text \<open>
  The body of the loop over the committed elements in the pixel-eraser branch: the
  elements it pushes, and the counter of \<open>generateId\<close> calls.
\<close>

definition eraseElement ::
  "(nat \<Rightarrow> string) \<Rightarrow> nat \<Rightarrow> Point list \<Rightarrow> real \<Rightarrow> DrawingElement
     \<Rightarrow> DrawingElement list \<times> nat" where
  "eraseElement gen n eraserPoints eraserSize element =
     (if isEraserElement element then ([], n)
      else if type element = OfTool Brush \<and>
              (case points element of Some ps \<Rightarrow> length ps > 1 | None \<Rightarrow> False)
      then segmentElements gen n element True
             (splitSegments eraserPoints eraserSize
                (case points element of Some ps \<Rightarrow> ps | None \<Rightarrow> []) [] [])
      else if \<not> shouldDelete eraserPoints eraserSize element then ([element], n)
      else ([], n))"

fun pixelErase ::
  "(nat \<Rightarrow> string) \<Rightarrow> nat \<Rightarrow> Point list \<Rightarrow> real \<Rightarrow> DrawingElement list
     \<Rightarrow> DrawingElement list" where
  "pixelErase gen n eraserPoints eraserSize [] = []"
| "pixelErase gen n eraserPoints eraserSize (element # rest) =
     (case eraseElement gen n eraserPoints eraserSize element of
        (pushed, n') \<Rightarrow> pushed @ pixelErase gen n' eraserPoints eraserSize rest)"

text \<open>The stroke-eraser branch: the callback of \<open>elements.filter\<close>.\<close>

definition intersects :: "Point list \<Rightarrow> real \<Rightarrow> DrawingElement \<Rightarrow> bool" where
  "intersects eraserPoints eraserSize element =
     (case points element of
        Some ps \<Rightarrow> pointsTouched eraserPoints eraserSize ps
      | None \<Rightarrow>
          (case startPoint element of
             Some sp \<Rightarrow> shapeTouched eraserPoints eraserSize sp (endPoint element)
           | None \<Rightarrow> False))"

definition strokeEraseKeeps :: "Point list \<Rightarrow> real \<Rightarrow> DrawingElement \<Rightarrow> bool" where
  "strokeEraseKeeps eraserPoints eraserSize element =
     (if isEraserElement element then False
      else \<not> intersects eraserPoints eraserSize element)"

definition strokeErase :: "Point list \<Rightarrow> real \<Rightarrow> DrawingElement list \<Rightarrow> DrawingElement list" where
  "strokeErase eraserPoints eraserSize els = filter (strokeEraseKeeps eraserPoints eraserSize) els"

subsection \<open>The eraser policies in the words of the specification\<close>

text \<open>
  A point lies strictly within \<open>r\<close> of the path: closer than \<open>r\<close> to one of its
  points. This is the test of the source.
\<close>

definition withinRadius :: "real \<Rightarrow> Point list \<Rightarrow> Point \<Rightarrow> bool" where
  "withinRadius r path p \<longleftrightarrow> (\<exists>q \<in> set path. distance p q < r)"

text \<open>A point is farther than \<open>r\<close> from every point of the path.\<close>

definition fartherThan :: "real \<Rightarrow> Point list \<Rightarrow> Point \<Rightarrow> bool" where
  "fartherThan r path p \<longleftrightarrow> (\<forall>q \<in> set path. distance p q > r)"

text \<open>
  A point lies within \<open>r\<close> of the path: at distance \<open>r\<close> or less from one of its
  points, that is, not farther than \<open>r\<close> from every point of the path.
\<close>

definition liesWithin :: "real \<Rightarrow> Point list \<Rightarrow> Point \<Rightarrow> bool" where
  "liesWithin r path p \<longleftrightarrow> (\<exists>q \<in> set path. distance p q \<le> r)"

text \<open>
  The defining points of an element: its path points when it has a path, and its
  anchor and opposite point (as far as present) otherwise.
\<close>

definition definingPoints :: "DrawingElement \<Rightarrow> Point list" where
  "definingPoints element =
     (case points element of
        Some ps \<Rightarrow> ps
      | None \<Rightarrow>
          (case startPoint element of
             None \<Rightarrow> []
           | Some sp \<Rightarrow> (case endPoint element of None \<Rightarrow> [sp] | Some ep \<Rightarrow> [sp, ep])))"

definition touched :: "real \<Rightarrow> Point list \<Rightarrow> DrawingElement \<Rightarrow> bool" where
  "touched r path element \<longleftrightarrow> (\<exists>p \<in> set (definingPoints element). withinRadius r path p)"

text \<open>The maximal runs of consecutive entries of a list that satisfy \<open>P\<close>.\<close>

function runs :: "('a \<Rightarrow> bool) \<Rightarrow> 'a list \<Rightarrow> 'a list list" where
  "runs P [] = []"
| "runs P (a # as) =
     (if P a then takeWhile P (a # as) # runs P (dropWhile P as) else runs P as)"
  by pat_completeness auto
termination
  by (relation "measure (\<lambda>(P, as). length as)")
    (auto simp add: less_Suc_eq_le length_dropWhile_le)

text \<open>
  The identifiers of the elements made from \<open>k\<close> surviving runs: the identifier of
  the stroke, then the next results of \<open>generateId\<close>.
\<close>

definition runIds :: "(nat \<Rightarrow> string) \<Rightarrow> nat \<Rightarrow> string option \<Rightarrow> nat \<Rightarrow> string option list" where
  "runIds gen n original k = original # map (\<lambda>i. Some (gen i)) [n..<n + (k - 1)]"

definition survivingRuns :: "real \<Rightarrow> Point list \<Rightarrow> Point list \<Rightarrow> Point list list" where
  "survivingRuns r path ps =
     filter (\<lambda>run. length run > 1) (runs (\<lambda>p. \<not> withinRadius r path p) ps)"

text \<open>
  The runs of \<open>as\<close> when a run \<open>cur\<close> of kept entries is already open in front
  of it.
\<close>

definition pendingRuns :: "('a \<Rightarrow> bool) \<Rightarrow> 'a list \<Rightarrow> 'a list \<Rightarrow> 'a list list" where
  "pendingRuns P cur as =
     (if cur = [] then runs P as else (cur @ takeWhile P as) # runs P (dropWhile P as))"

section \<open>Pointer gestures (handleMouseDown, handleMouseMove, handleMouseUp)\<close>

record MouseEvent =
  button :: int
  altKey :: bool
  clientX :: real
  clientY :: real

text \<open>
  The left and top of \<open>canvas.getBoundingClientRect()\<close>; the canvas itself is
  \<open>None\<close> while \<open>canvasRef.current\<close> is null.
\<close>

record DOMRect =
  rect_left :: real
  rect_top :: real

definition getMousePos :: "DOMRect option \<Rightarrow> State \<Rightarrow> MouseEvent \<Rightarrow> Point" where
  "getMousePos canvas s e =
     (case canvas of
        None \<Rightarrow> \<lparr>x = 0, y = 0\<rparr>
      | Some rect \<Rightarrow>
          \<lparr>x = (clientX e - rect_left rect - x (offset s)) / scale s,
           y = (clientY e - rect_top rect - y (offset s)) / scale s\<rparr>)"

text \<open>\<open>v || d\<close> for an optional number, and truthiness of an optional string.\<close>

definition numberOr :: "real option \<Rightarrow> real \<Rightarrow> real" where
  "numberOr v d = (case v of Some n \<Rightarrow> if n \<noteq> 0 then n else d | None \<Rightarrow> d)"

definition truthyString :: "string option \<Rightarrow> bool" where
  "truthyString v = (case v of Some t \<Rightarrow> t \<noteq> [] | None \<Rightarrow> False)"

subsection \<open>findElementAtPoint\<close>

definition hitsImage :: "Point \<Rightarrow> DrawingElement \<Rightarrow> bool" where
  "hitsImage point element =
     (case (startPoint element, width element, height element) of
        (Some sp, Some w, Some h) \<Rightarrow>
          type element = Image \<and> w \<noteq> 0 \<and> h \<noteq> 0 \<and>
          x point \<ge> x sp \<and> x point \<le> x sp + w \<and>
          y point \<ge> y sp \<and> y point \<le> y sp + h
      | _ \<Rightarrow> False)"

definition hitsText :: "Point \<Rightarrow> DrawingElement \<Rightarrow> bool" where
  "hitsText point element =
     (case startPoint element of
        Some sp \<Rightarrow>
          (let textWidth = numberOr (width element) 100;
               fontSize = numberOr (map_option fontSize (textFormat_el element)) 24
           in type element = OfTool TextTool \<and>
              x point \<ge> x sp - 5 \<and> x point \<le> x sp + textWidth + 5 \<and>
              y point \<ge> y sp - fontSize \<and> y point \<le> y sp + fontSize * 0.3)
      | None \<Rightarrow> False)"

definition hitsShape :: "Point \<Rightarrow> DrawingElement \<Rightarrow> bool" where
  "hitsShape point element =
     (case (startPoint element, endPoint element) of
        (Some sp, Some ep) \<Rightarrow>
          (let margin = 10;
               minX = min (x sp) (x ep) - margin;
               maxX = max (x sp) (x ep) + margin;
               minY = min (y sp) (y ep) - margin;
               maxY = max (y sp) (y ep) + margin
           in type element \<noteq> OfTool TextTool \<and> type element \<noteq> Image \<and>
              x point \<ge> minX \<and> x point \<le> maxX \<and> y point \<ge> minY \<and> y point \<le> maxY)
      | _ \<Rightarrow> False)"

fun strokePointNear :: "Point list \<Rightarrow> real \<Rightarrow> Point \<Rightarrow> bool" where
  "strokePointNear [] size_el point = False"
| "strokePointNear (p # rest) size_el point =
     (if distance p point < numberOr (Some size_el) 5 + 5 then True
      else strokePointNear rest size_el point)"

definition hitsStroke :: "Point \<Rightarrow> DrawingElement \<Rightarrow> bool" where
  "hitsStroke point element =
     (case points element of
        Some ps \<Rightarrow> length ps > 0 \<and> strokePointNear ps (brushSize element) point
      | None \<Rightarrow> False)"

definition hitsElement :: "Point \<Rightarrow> DrawingElement \<Rightarrow> bool" where
  "hitsElement point element \<longleftrightarrow>
     hitsImage point element \<or> hitsText point element \<or>
     hitsShape point element \<or> hitsStroke point element"

text \<open>The scan runs from the last element (the topmost) to the first.\<close>

definition findElementAtPoint :: "DrawingElement list \<Rightarrow> Point \<Rightarrow> DrawingElement option" where
  "findElementAtPoint els point = find (hitsElement point) (rev els)"

subsection \<open>handleMouseDown\<close>

text \<open>\<open>clickedElement.id || null\<close>.\<close>

definition idOrNull :: "string option \<Rightarrow> string option" where
  "idOrNull v = (if truthyString v then v else None)"

definition pathElement ::
  "Tool \<Rightarrow> Point \<Rightarrow> string \<Rightarrow> real \<Rightarrow> real \<Rightarrow> string \<Rightarrow> DrawingElement" where
  "pathElement tool point col size_el opac ident =
     \<lparr>type = OfTool tool, points = Some [point], startPoint = None, endPoint = None,
      color = col, brushSize = size_el, opacity = opac, text_el = None,
      textFormat_el = None, imageData = None, width = None, height = None,
      id_el = Some ident, isTemporary = None, isGeneratedAi = None\<rparr>"

definition shapeElement ::
  "Tool \<Rightarrow> Point \<Rightarrow> string \<Rightarrow> real \<Rightarrow> real \<Rightarrow> string \<Rightarrow> DrawingElement" where
  "shapeElement tool point col size_el opac ident =
     \<lparr>type = OfTool tool, points = None, startPoint = Some point, endPoint = Some point,
      color = col, brushSize = size_el, opacity = opac, text_el = None,
      textFormat_el = None, imageData = None, width = None, height = None,
      id_el = Some ident, isTemporary = None, isGeneratedAi = None\<rparr>"

text \<open>
  \<open>currentTool\<close> and \<open>settings\<close> are the props of the render; \<open>newId\<close> is the result
  of the one \<open>generateId()\<close> call a press can make.
\<close>

definition handleMouseDown ::
  "Tool \<Rightarrow> DrawingSettings \<Rightarrow> string \<Rightarrow> DOMRect option \<Rightarrow> State \<Rightarrow> MouseEvent \<Rightarrow> State" where
  "handleMouseDown currentTool settings newId canvas s e =
     (if button e = 1 \<or> (button e = 0 \<and> altKey e)
      then s\<lparr>isPanning := True,
             panStart := \<lparr>x = clientX e - x (offset s), y = clientY e - y (offset s)\<rparr>\<rparr>
      else if isSelectionMode s \<or> currentTool = SelectionArea
      then (let pos = getMousePos canvas s e
            in s\<lparr>isSelecting := True, isSelectionMode := True,
                 selectionRect := Some \<lparr>rectStart = pos, rectEnd = pos\<rparr>\<rparr>)
      else (let point = getMousePos canvas s e in
        if currentTool = TextTool
        then s\<lparr>textPosition := Some point, showTextPanel := True, textInput := []\<rparr>
        else if currentTool = StrokeEraser
        then s\<lparr>isDrawing := True,
               currentElement := Some (pathElement StrokeEraser point (settingsColor settings)
                  (settingsBrushSize settings * 2) 1 newId)\<rparr>
        else if currentTool = Select
        then (case findElementAtPoint (elements s) point of
                Some clickedElement \<Rightarrow>
                  (let s1 = s\<lparr>selectedElementId := idOrNull (id_el clickedElement),
                              dragStart := Some point, isDragging := True,
                              hasDragStarted := False\<rparr>
                   in if type clickedElement = OfTool TextTool \<and> truthyString (text_el clickedElement)
                      then s1\<lparr>textInput := (case text_el clickedElement of Some t \<Rightarrow> t | None \<Rightarrow> []),
                              textFormat := (case textFormat_el clickedElement of
                                               Some f \<Rightarrow> f | None \<Rightarrow> defaultTextFormat),
                              textPosition := Some (case startPoint clickedElement of
                                                      Some sp \<Rightarrow> sp | None \<Rightarrow> point),
                              showTextPanel := True\<rparr>
                      else s1)
              | None \<Rightarrow> s\<lparr>selectedElementId := None, showTextPanel := False\<rparr>)
        else if currentTool = Brush \<or> currentTool = Eraser
        then s\<lparr>isDrawing := True,
               currentElement := Some (pathElement currentTool point (settingsColor settings)
                  (settingsBrushSize settings) (settingsOpacity settings) newId)\<rparr>
        else s\<lparr>isDrawing := True,
               currentElement := Some (shapeElement currentTool point (settingsColor settings)
                  (settingsBrushSize settings) (settingsOpacity settings) newId)\<rparr>))"

subsection \<open>handleMouseMove\<close>

text \<open>The callback of \<open>elements.map\<close> in the drag branch.\<close>

definition translatePoint :: "real \<Rightarrow> real \<Rightarrow> Point \<Rightarrow> Point" where
  "translatePoint dx dy p = \<lparr>x = x p + dx, y = y p + dy\<rparr>"

definition dragElement :: "string option \<Rightarrow> real \<Rightarrow> real \<Rightarrow> DrawingElement \<Rightarrow> DrawingElement" where
  "dragElement selected dx dy el =
     (if id_el el = selected
      then el\<lparr>startPoint := map_option (translatePoint dx dy) (startPoint el),
              endPoint := map_option (translatePoint dx dy) (endPoint el),
              points := map_option (map (translatePoint dx dy)) (points el)\<rparr>
      else el)"

definition handleMouseMove :: "Tool \<Rightarrow> DOMRect option \<Rightarrow> State \<Rightarrow> MouseEvent \<Rightarrow> State" where
  "handleMouseMove currentTool canvas s e =
     (if isPanning s
      then s\<lparr>offset := \<lparr>x = clientX e - x (panStart s), y = clientY e - y (panStart s)\<rparr>\<rparr>
      else if isSelecting s \<and> selectionRect s \<noteq> None
      then s\<lparr>selectionRect :=
               map_option (\<lambda>r. r\<lparr>rectEnd := getMousePos canvas s e\<rparr>) (selectionRect s)\<rparr>
      else if isDragging s \<and> truthyString (selectedElementId s) \<and> dragStart s \<noteq> None
      then (let currentPos = getMousePos canvas s e;
                start = (case dragStart s of Some p \<Rightarrow> p | None \<Rightarrow> currentPos);
                dx = x currentPos - x start;
                dy = y currentPos - y start
            in if \<not> hasDragStarted s \<and> sqrt (dx * dx + dy * dy) < 3 then s
               else (if \<not> hasDragStarted s
                     then s\<lparr>hasDragStarted := True,
                            showTextPanel := (if showTextPanel s then False else showTextPanel s)\<rparr>
                     else s)
                    \<lparr>elements := map (dragElement (selectedElementId s) dx dy) (elements s),
                     dragStart := Some currentPos\<rparr>)
      else (case currentElement s of
              None \<Rightarrow> s
            | Some cur \<Rightarrow>
                if \<not> isDrawing s then s
                else (let point = getMousePos canvas s e in
                  if currentTool = Brush \<or> currentTool = Eraser \<or> currentTool = StrokeEraser
                  then s\<lparr>currentElement :=
                           Some (cur\<lparr>points :=
                             Some ((case points cur of Some ps \<Rightarrow> ps | None \<Rightarrow> []) @ [point])\<rparr>)\<rparr>
                  else s\<lparr>currentElement := Some (cur\<lparr>endPoint := Some point\<rparr>)\<rparr>)))"

subsection \<open>handleMouseUp\<close>

text \<open>
  \<open>finishGesture\<close> is the body of \<open>if (isDrawing && currentElement)\<close>.
  The handler also serves \<open>onMouseLeave\<close>. The \<open>canvas-selection-complete\<close> event it
  dispatches after a selection drag changes no state of the component and is left out.
  \<open>gen\<close> supplies the results of the \<open>generateId()\<close> calls of this run.
\<close>

definition finishGesture :: "(nat \<Rightarrow> string) \<Rightarrow> State \<Rightarrow> DrawingElement \<Rightarrow> State" where
  "finishGesture gen s cur =
     (if type cur = OfTool Eraser \<and> points cur \<noteq> None
      then (let newElements = pixelErase gen 0
                  (case points cur of Some ps \<Rightarrow> ps | None \<Rightarrow> []) (brushSize cur) (elements s)
            in (saveToHistory newElements (s\<lparr>elements := newElements\<rparr>))\<lparr>currentElement := None\<rparr>)
      else if type cur = OfTool StrokeEraser \<and> points cur \<noteq> None
      then (let newElements = strokeErase
                  (case points cur of Some ps \<Rightarrow> ps | None \<Rightarrow> []) (brushSize cur) (elements s)
            in (saveToHistory newElements (s\<lparr>elements := newElements\<rparr>))\<lparr>currentElement := None\<rparr>)
      else (let newElements = elements s @ [cur]
            in (saveToHistory newElements (s\<lparr>elements := newElements\<rparr>))\<lparr>currentElement := None\<rparr>))"

definition handleMouseUp :: "(nat \<Rightarrow> string) \<Rightarrow> State \<Rightarrow> State" where
  "handleMouseUp gen s =
     (if isPanning s then s\<lparr>isPanning := False\<rparr>
      else if isSelecting s then s\<lparr>isSelecting := False, isSelectionMode := False\<rparr>
      else if isDragging s
      then (let s1 = s\<lparr>isDragging := False, dragStart := None, hasDragStarted := False\<rparr>
            in if truthyString (selectedElementId s) \<and> hasDragStarted s
               then saveToHistory (elements s) s1
               else s1)
      else (case currentElement s of
              Some cur \<Rightarrow>
                if isDrawing s then (finishGesture gen s cur)\<lparr>isDrawing := False\<rparr>
                else s\<lparr>isDrawing := False\<rparr>
            | None \<Rightarrow> s\<lparr>isDrawing := False\<rparr>))"

section \<open>Selection export (handleGetSelection)\<close>

text \<open>
  What the handler meets in the browser: whether \<open>canvasRef.current\<close> is set, whether
  \<open>getContext('2d')\<close> gives a context on the canvas and on the temporary canvas, and
  the JPEG data URL that \<open>toDataURL\<close> returns for the region copied from
  \<open>(x, y)\<close> with the given width and height.
\<close>

record Browser =
  canvasMounted :: bool
  canvasContext :: bool
  tempContext :: bool
  jpegOfRegion :: "real \<Rightarrow> real \<Rightarrow> real \<Rightarrow> real \<Rightarrow> string"

text \<open>
  The result lists the arguments of the calls of \<open>callback\<close> in order; \<open>None\<close> is
  \<open>callback(null)\<close>.
\<close>

definition handleGetSelection :: "Browser \<Rightarrow> State \<Rightarrow> string option list" where
  "handleGetSelection b s =
     (case selectionRect s of
        None \<Rightarrow> [None]
      | Some rect \<Rightarrow>
          if \<not> canvasMounted b then [None]
          else if \<not> canvasContext b then [None]
          else (let rx = min (x (rectStart rect)) (x (rectEnd rect)) * scale s + x (offset s);
                    ry = min (y (rectStart rect)) (y (rectEnd rect)) * scale s + y (offset s);
                    rw = \<bar>x (rectEnd rect) - x (rectStart rect)\<bar> * scale s;
                    rh = \<bar>y (rectEnd rect) - y (rectStart rect)\<bar> * scale s
                in if tempContext b then [Some (jpegOfRegion b rx ry rw rh)] else [None]))"

section \<open>Gestures and reachable states\<close>

text \<open>No pan, selection drag or element drag is in progress, and selection mode is off.\<close>

definition idle :: "State \<Rightarrow> bool" where
  "idle s \<longleftrightarrow> \<not> isPanning s \<and> \<not> isSelecting s \<and> \<not> isDragging s \<and> \<not> isSelectionMode s"

text \<open>The press that \<open>handleMouseDown\<close> takes for the start of a pan.\<close>

definition panClick :: "MouseEvent \<Rightarrow> bool" where
  "panClick e \<longleftrightarrow> button e = 1 \<or> (button e = 0 \<and> altKey e)"

text \<open>No element of the list is an eraser path.\<close>

definition noErasers :: "DrawingElement list \<Rightarrow> bool" where
  "noErasers els \<longleftrightarrow> (\<forall>el \<in> set els. \<not> isEraserElement el)"

text \<open>
  Neither the live list nor a snapshot holds an eraser path, and a provisional eraser
  path has its points.
\<close>

definition eraserFree :: "State \<Rightarrow> bool" where
  "eraserFree s \<longleftrightarrow>
     noErasers (elements s) \<and> (\<forall>h \<in> set (history s). noErasers h) \<and>
     (\<forall>cur. currentElement s = Some cur \<longrightarrow> isEraserElement cur \<longrightarrow> points cur \<noteq> None)"

text \<open>The handlers as events on the component.\<close>

datatype Event =
  MouseDown Tool DrawingSettings string MouseEvent
  | MouseMove Tool MouseEvent
  | MouseUp "nat \<Rightarrow> string"
  | UndoEvent | RedoEvent | ClearEvent

fun handleEvent :: "DOMRect option \<Rightarrow> State \<Rightarrow> Event \<Rightarrow> State" where
  "handleEvent canvas s (MouseDown tool settings newId e) = handleMouseDown tool settings newId canvas s e"
| "handleEvent canvas s (MouseMove tool e) = handleMouseMove tool canvas s e"
| "handleEvent canvas s (MouseUp gen) = handleMouseUp gen s"
| "handleEvent canvas s UndoEvent = handleUndo s"
| "handleEvent canvas s RedoEvent = handleRedo s"
| "handleEvent canvas s ClearEvent = handleClear s"

section \<open>Concrete inputs\<close>

text \<open>A brush stroke through the given points, as \<open>handleMouseDown\<close> creates it.\<close>

definition strokeOf :: "string \<Rightarrow> Point list \<Rightarrow> DrawingElement" where
  "strokeOf i ps =
     \<lparr>type = OfTool Brush, points = Some ps, startPoint = None, endPoint = None,
      color = ''#000000'', brushSize = 3, opacity = 1, text_el = None,
      textFormat_el = None, imageData = None, width = None, height = None,
      id_el = Some i, isTemporary = None, isGeneratedAi = None\<rparr>"

definition pt :: "real \<Rightarrow> real \<Rightarrow> Point" where
  "pt a b = \<lparr>x = a, y = b\<rparr>"

text \<open>
  A left-button event at a client position, a canvas whose rectangle starts at the
  origin, and settings with a given brush size.
\<close>

definition mouseAt :: "real \<Rightarrow> real \<Rightarrow> MouseEvent" where
  "mouseAt a b = \<lparr>button = 0, altKey = False, clientX = a, clientY = b\<rparr>"

definition canvasAtOrigin :: "DOMRect option" where
  "canvasAtOrigin = Some \<lparr>rect_left = 0, rect_top = 0\<rparr>"

definition settingsOfSize :: "real \<Rightarrow> DrawingSettings" where
  "settingsOfSize b = \<lparr>settingsColor = ''#000000'', settingsBrushSize = b, settingsOpacity = 1\<rparr>"

text \<open>The state after one committed stroke from \<open>(0, 0)\<close> to \<open>(10, 0)\<close>.\<close>

definition oneStroke :: State where
  "oneStroke = commit [strokeOf ''a'' [pt 0 0, pt 10 0]] initialState"

section \<open>History: field-wise behaviour of the operations\<close>

lemma handleUndo_fields:
  "history (handleUndo s) = history s"
  "historyStep (handleUndo s) = historyStep s - 1"
  "elements (handleUndo s) =
     (if historyStep s > 0 then snapshotOrEmpty (history s) (historyStep s - 1) else elements s)"
  by (simp_all add: handleUndo_def)

lemma handleRedo_fields:
  "history (handleRedo s) = history s"
  "historyStep (handleRedo s) =
     (if historyStep s + 1 < length (history s) then historyStep s + 1 else historyStep s)"
  "elements (handleRedo s) =
     (if historyStep s + 1 < length (history s) then history s ! (historyStep s + 1) else elements s)"
  by (auto simp add: handleRedo_def)

lemma commit_fields:
  "history (commit l s) = take (historyStep s + 1) (history s) @ [l]"
  "historyStep (commit l s) = length (take (historyStep s + 1) (history s))"
  "elements (commit l s) = l"
  by (simp_all add: commit_def saveToHistory_def Let_def)

lemma commitAll_snoc: "commitAll (ls @ [l]) s = commit l (commitAll ls s)"
  by (simp add: commitAll_def)

lemma commitAll_initial:
  "ls \<noteq> [] \<Longrightarrow>
   history (commitAll ls initialState) = ls \<and>
   historyStep (commitAll ls initialState) = length ls - 1 \<and>
   elements (commitAll ls initialState) = last ls"
proof (induction ls rule: rev_nonempty_induct)
  case (single l)
  then show ?case
    by (simp add: commitAll_def commit_fields initialState_def)
next
  case (snoc l ls)
  then show ?case
    by (simp add: commitAll_snoc commit_fields)
qed

lemma undo_history: "history ((handleUndo ^^ k) s) = history s"
  by (induction k) (simp_all add: handleUndo_fields)

lemma undo_step: "historyStep ((handleUndo ^^ k) s) = historyStep s - k"
  by (induction k) (simp_all add: handleUndo_fields)

lemma undo_elements:
  "elements ((handleUndo ^^ k) s) =
     (if k = 0 \<or> historyStep s = 0 then elements s
      else snapshotOrEmpty (history s) (historyStep s - k))"
proof (induction k)
  case 0
  then show ?case by simp
next
  case (Suc k)
  show ?case
  proof (cases "historyStep s - k > 0")
    case True
    then show ?thesis
      by (simp add: handleUndo_fields undo_step undo_history)
  next
    case False
    then have "elements (handleUndo ((handleUndo ^^ k) s)) = elements ((handleUndo ^^ k) s)"
      by (simp add: handleUndo_fields undo_step)
    with False Suc show ?thesis
      by (cases "k = 0") auto
  qed
qed

lemma redo_history: "history ((handleRedo ^^ k) s) = history s"
  by (induction k) (simp_all add: handleRedo_fields)

lemma redo_within:
  "historyStep s + k < length (history s) \<Longrightarrow>
   historyStep ((handleRedo ^^ k) s) = historyStep s + k \<and>
   elements ((handleRedo ^^ k) s) = (if k = 0 then elements s else history s ! (historyStep s + k))"
proof (induction k)
  case 0
  then show ?case by simp
next
  case (Suc k)
  then show ?case
    by (simp add: handleRedo_fields redo_history)
qed

section \<open>History: the two-commit scenario\<close>

text \<open>
  C8. From the initial state, committing \<open>[A]\<close> and then \<open>[A, B]\<close> and undoing once
  makes the live list \<open>[A]\<close>; redoing after that makes it \<open>[A, B]\<close>.
\<close>

theorem C8_commit_undo_redo_scenario:
  "elements (handleUndo (commit [A, B] (commit [A] initialState))) = [A] \<and>
   elements (handleRedo (handleUndo (commit [A, B] (commit [A] initialState)))) = [A, B]"
  by (simp add: commit_def saveToHistory_def handleUndo_def handleRedo_def
      initialState_def snapshotOrEmpty_def Let_def)

theorem C8_commit_undo_redo_scenario_witness:
  "elements (handleUndo (commit [strokeOf ''a'' [pt 0 0, pt 1 1], strokeOf ''b'' [pt 2 2, pt 3 3]]
      (commit [strokeOf ''a'' [pt 0 0, pt 1 1]] initialState))) = [strokeOf ''a'' [pt 0 0, pt 1 1]] \<and>
   elements (handleRedo (handleUndo (commit [strokeOf ''a'' [pt 0 0, pt 1 1], strokeOf ''b'' [pt 2 2, pt 3 3]]
      (commit [strokeOf ''a'' [pt 0 0, pt 1 1]] initialState))))
     = [strokeOf ''a'' [pt 0 0, pt 1 1], strokeOf ''b'' [pt 2 2, pt 3 3]]"
  using C8_commit_undo_redo_scenario
    [of "strokeOf ''a'' [pt 0 0, pt 1 1]" "strokeOf ''b'' [pt 2 2, pt 3 3]"]
  by simp


section \<open>History: clear\<close>

text \<open>
  C1. The claim makes \<open>clear()\<close> a commit of the empty list: the snapshots up to the
  cursor stay, the empty list is appended and the cursor moves to it, as
  \<open>saveToHistory\<close> and the import, AI and convert handlers do for their lists.
  \<open>handleClear\<close> does not: after the commits of \<open>[a]\<close> and \<open>[a, b]\<close> it leaves the one
  snapshot \<open>[a, b]\<close>, the snapshot \<open>[a]\<close> is gone, the empty list is not stored, and the
  cursor is 2, outside the history. A commit of the empty list in the same state gives
  the three snapshots \<open>[a]\<close>, \<open>[a, b]\<close>, \<open>[]\<close> and the cursor 2 on the last.
\<close>

theorem C1_clear_discards_history:
  "elements (handleClear (commit [strokeOf ''a'' [pt 0 0, pt 1 1], strokeOf ''b'' [pt 2 2, pt 3 3]]
      (commit [strokeOf ''a'' [pt 0 0, pt 1 1]] initialState))) = [] \<and>
   history (handleClear (commit [strokeOf ''a'' [pt 0 0, pt 1 1], strokeOf ''b'' [pt 2 2, pt 3 3]]
      (commit [strokeOf ''a'' [pt 0 0, pt 1 1]] initialState)))
     = [[strokeOf ''a'' [pt 0 0, pt 1 1], strokeOf ''b'' [pt 2 2, pt 3 3]]] \<and>
   historyStep (handleClear (commit [strokeOf ''a'' [pt 0 0, pt 1 1], strokeOf ''b'' [pt 2 2, pt 3 3]]
      (commit [strokeOf ''a'' [pt 0 0, pt 1 1]] initialState))) = 2 \<and>
   elements (commit [] (commit [strokeOf ''a'' [pt 0 0, pt 1 1], strokeOf ''b'' [pt 2 2, pt 3 3]]
      (commit [strokeOf ''a'' [pt 0 0, pt 1 1]] initialState))) = [] \<and>
   history (commit [] (commit [strokeOf ''a'' [pt 0 0, pt 1 1], strokeOf ''b'' [pt 2 2, pt 3 3]]
      (commit [strokeOf ''a'' [pt 0 0, pt 1 1]] initialState)))
     = [[strokeOf ''a'' [pt 0 0, pt 1 1]],
        [strokeOf ''a'' [pt 0 0, pt 1 1], strokeOf ''b'' [pt 2 2, pt 3 3]], []] \<and>
   historyStep (commit [] (commit [strokeOf ''a'' [pt 0 0, pt 1 1], strokeOf ''b'' [pt 2 2, pt 3 3]]
      (commit [strokeOf ''a'' [pt 0 0, pt 1 1]] initialState))) = 2"
  by (simp add: handleClear_def commit_fields initialState_def)

text \<open>What \<open>handleClear\<close> leaves in the live list and in the history.\<close>

lemma clear_fields:
  "elements (handleClear s) = [] \<and> history (handleClear s) = [elements s]"
  by (simp add: handleClear_def)

text \<open>The cursor after a clear is the number of snapshots before it.\<close>

lemma clear_cursor: "historyStep (handleClear s) = length (history s)"
  by (simp add: handleClear_def)

section \<open>History: the cursor\<close>

text \<open>
  C2 (as stated) asks for \<open>0 \<le> cursor < number of snapshots\<close> in every reachable
  state. Before the first commit no snapshot is stored and the cursor is 0; an undo
  and a redo there change nothing. And after one commit, \<open>handleClear\<close> leaves one
  snapshot and sets the cursor to 1, the length of the history it read.
\<close>

theorem C2_cursor_not_always_valid:
  "\<not> historyStep (runOps [Undo, Redo] initialState)
       < length (history (runOps [Undo, Redo] initialState)) \<and>
   \<not> historyStep (runOps [Commit [strokeOf ''a'' [pt 0 0, pt 1 1]], Clear] initialState)
       < length (history (runOps [Commit [strokeOf ''a'' [pt 0 0, pt 1 1]], Clear] initialState))"
  by (simp add: runOps_def initialState_def handleUndo_def handleRedo_def handleClear_def
      commit_fields)

lemma cursor_nonempty_step:
  assumes "op \<noteq> Clear" and "historyStep s < length (history s)"
  shows "historyStep (applyOp s op) < length (history (applyOp s op))"
  using assms by (cases op) (auto simp add: commit_fields handleUndo_fields handleRedo_fields)

lemma cursor_runOps:
  "Clear \<notin> set ops \<Longrightarrow>
   (if \<exists>l. Commit l \<in> set ops
    then historyStep (runOps ops initialState) < length (history (runOps ops initialState))
    else history (runOps ops initialState) = [] \<and> historyStep (runOps ops initialState) = 0)"
proof (induction ops rule: rev_induct)
  case Nil
  then show ?case by (simp add: runOps_def initialState_def)
next
  case (snoc op ops)
  let ?s = "runOps ops initialState"
  have run: "runOps (ops @ [op]) initialState = applyOp ?s op"
    by (simp add: runOps_def)
  from snoc.prems have nc: "op \<noteq> Clear" "Clear \<notin> set ops" by auto
  show ?case
  proof (cases "\<exists>l. Commit l \<in> set ops")
    case True
    with snoc.IH [OF nc(2)] have "historyStep ?s < length (history ?s)" by simp
    from cursor_nonempty_step [OF nc(1) this] True show ?thesis
      by (auto simp add: run)
  next
    case False
    show ?thesis
    proof (cases "\<exists>l. op = Commit l")
      case True
      then show ?thesis by (auto simp add: run commit_fields)
    next
      case noCommit: False
      with False have none: "\<not> (\<exists>l. Commit l \<in> set (ops @ [op]))" by auto
      from False snoc.IH [OF nc(2)] have e: "history ?s = []" "historyStep ?s = 0" by simp_all
      have "history (applyOp ?s op) = [] \<and> historyStep (applyOp ?s op) = 0"
        using e nc(1) noCommit
        by (cases op) (simp_all add: handleUndo_fields handleRedo_fields)
      with none show ?thesis by (simp only: run if_False) 
    qed
  qed
qed

text \<open>
  C2 (amended). In every state reached from the initial state by commits, undos and
  redos, the cursor is 0 with no snapshot stored as long as nothing has been
  committed, and from the first commit on it indexes a stored snapshot.
\<close>

theorem C2_cursor_valid_without_clear:
  assumes "Clear \<notin> set ops"
  shows "(if \<exists>l. Commit l \<in> set ops
          then historyStep (runOps ops initialState) < length (history (runOps ops initialState))
          else history (runOps ops initialState) = [] \<and> historyStep (runOps ops initialState) = 0)"
  using assms by (rule cursor_runOps)

theorem C2_cursor_valid_without_clear_witness:
  "Clear \<notin> set [Commit [strokeOf ''a'' [pt 0 0, pt 1 1]], Undo, Redo] \<and>
   historyStep (runOps [Commit [strokeOf ''a'' [pt 0 0, pt 1 1]], Undo, Redo] initialState)
     < length (history (runOps [Commit [strokeOf ''a'' [pt 0 0, pt 1 1]], Undo, Redo] initialState))"
proof -
  have h: "Clear \<notin> set [Commit [strokeOf ''a'' [pt 0 0, pt 1 1]], Undo, Redo]" by simp
  have c: "\<exists>l. Commit l \<in> set [Commit [strokeOf ''a'' [pt 0 0, pt 1 1]], Undo, Redo]" by simp
  from C2_cursor_valid_without_clear [OF h] c h show ?thesis by (simp only: if_True simp_thms)
qed

section \<open>History: undoing and redoing a run of commits\<close>

text \<open>
  C3 (as stated) has \<open>N\<close> undos after \<open>N\<close> commits empty the live list. With \<open>N = 1\<close>
  the cursor is 0 after the commit, the undo does nothing and the committed stroke
  stays.
\<close>

theorem C3_undo_does_not_reach_empty:
  "elements ((handleUndo ^^ 1) (commitAll [[strokeOf ''a'' [pt 0 0, pt 1 1]]] initialState))
     = [strokeOf ''a'' [pt 0 0, pt 1 1]] \<and>
   elements ((handleUndo ^^ 1) (commitAll [[strokeOf ''a'' [pt 0 0, pt 1 1]]] initialState)) \<noteq> []"
  by (simp add: commitAll_def commit_fields handleUndo_fields initialState_def)

text \<open>
  C3 (amended). For \<open>N \<ge> 1\<close> commits from the initial state, \<open>N\<close> undos leave the
  live list equal to the list of the first commit, and \<open>N\<close> redos after them restore
  the list of the last commit.
\<close>

theorem C3_undo_redo_round_trip:
  assumes "ls \<noteq> []"
  shows "elements ((handleUndo ^^ length ls) (commitAll ls initialState)) = hd ls \<and>
         elements ((handleRedo ^^ length ls) ((handleUndo ^^ length ls) (commitAll ls initialState))) = last ls"
proof -
  define s where "s = commitAll ls initialState"
  define u where "u = (handleUndo ^^ length ls) s"
  from assms obtain n where n: "length ls = Suc n" by (cases ls) auto
  have c: "history s = ls" "historyStep s = n" "elements s = last ls"
    using commitAll_initial [OF assms] n by (simp_all add: s_def)
  have u: "history u = ls" "historyStep u = 0"
    using c n by (simp_all add: u_def undo_history undo_step del: funpow.simps)
  have ue: "elements u = hd ls"
  proof (cases n)
    case 0
    with n have "last ls = hd ls" by (cases ls) auto
    with 0 c show ?thesis by (simp add: u_def undo_elements del: funpow.simps)
  next
    case (Suc m)
    with c n assms show ?thesis
      by (simp add: u_def undo_elements snapshotOrEmpty_def hd_conv_nth del: funpow.simps)
  qed
  have r: "historyStep ((handleRedo ^^ n) u) = n"
      "elements ((handleRedo ^^ n) u) = (if n = 0 then hd ls else ls ! n)"
    using redo_within [of u n] u ue n by simp_all
  have "elements (handleRedo ((handleRedo ^^ n) u)) = elements ((handleRedo ^^ n) u)"
    by (simp add: handleRedo_fields r redo_history u n)
  then have "elements ((handleRedo ^^ length ls) u) = (if n = 0 then hd ls else ls ! n)"
    using r n by simp
  moreover have "(if n = 0 then hd ls else ls ! n) = last ls"
    using n assms by (cases ls) (auto simp: last_conv_nth)
  ultimately show ?thesis using ue by (simp add: u_def s_def)
qed

theorem C3_undo_redo_round_trip_witness:
  "[[strokeOf ''a'' [pt 0 0, pt 1 1]], [strokeOf ''a'' [pt 0 0, pt 1 1], strokeOf ''b'' [pt 2 2, pt 3 3]]] \<noteq> [] \<and>
   elements ((handleUndo ^^ 2) (commitAll
      [[strokeOf ''a'' [pt 0 0, pt 1 1]], [strokeOf ''a'' [pt 0 0, pt 1 1], strokeOf ''b'' [pt 2 2, pt 3 3]]]
      initialState)) = [strokeOf ''a'' [pt 0 0, pt 1 1]] \<and>
   elements ((handleRedo ^^ 2) ((handleUndo ^^ 2) (commitAll
      [[strokeOf ''a'' [pt 0 0, pt 1 1]], [strokeOf ''a'' [pt 0 0, pt 1 1], strokeOf ''b'' [pt 2 2, pt 3 3]]]
      initialState))) = [strokeOf ''a'' [pt 0 0, pt 1 1], strokeOf ''b'' [pt 2 2, pt 3 3]]"
  using C3_undo_redo_round_trip
    [of "[[strokeOf ''a'' [pt 0 0, pt 1 1]], [strokeOf ''a'' [pt 0 0, pt 1 1], strokeOf ''b'' [pt 2 2, pt 3 3]]]"]
  by (simp add: numeral_2_eq_2)

section \<open>Eraser engine: the loops and the policies\<close>

lemma shouldErase_withinRadius:
  "shouldErase path sz p \<longleftrightarrow> withinRadius (sz / 2) path p"
  by (induction path) (simp_all add: withinRadius_def)

lemma pointsTouched_iff:
  "pointsTouched path sz ps \<longleftrightarrow> (\<exists>p \<in> set ps. withinRadius (sz / 2) path p)"
  by (induction ps) (simp_all add: shouldErase_withinRadius)

lemma shapeTouched_iff:
  "shapeTouched path sz sp ep \<longleftrightarrow>
     withinRadius (sz / 2) path sp \<or> (\<exists>e. ep = Some e \<and> withinRadius (sz / 2) path e)"
proof (induction path)
  case Nil
  then show ?case by (simp add: withinRadius_def)
next
  case (Cons q path)
  then show ?case
    by (cases ep) (auto simp add: withinRadius_def)
qed

lemma intersects_touched:
  "intersects path sz el \<longleftrightarrow> touched (sz / 2) path el"
proof (cases "points el")
  case (Some ps)
  then show ?thesis
    by (simp add: intersects_def touched_def definingPoints_def pointsTouched_iff)
next
  case None
  show ?thesis
  proof (cases "startPoint el")
    case noStart: None
    with None show ?thesis
      by (simp add: intersects_def touched_def definingPoints_def)
  next
    case (Some sp)
    with None show ?thesis
      by (cases "endPoint el")
        (simp_all add: intersects_def touched_def definingPoints_def shapeTouched_iff)
  qed
qed

lemma shouldDelete_intersects: "shouldDelete path sz el = intersects path sz el"
  by (simp add: shouldDelete_def intersects_def)

lemma runs_all_kept:
  assumes "\<forall>a \<in> set as. P a" and "as \<noteq> []"
  shows "runs P as = [as]"
proof (cases as)
  case Nil
  with assms(2) show ?thesis by simp
next
  case (Cons a rest)
  with assms(1) have all: "P a" "\<forall>b \<in> set rest. P b" by simp_all
  from all(2) have tw: "takeWhile P rest = rest"
    by (simp add: takeWhile_eq_all_conv)
  from all(2) have "dropWhile P rest = []"
    by (simp add: dropWhile_eq_Nil_conv)
  then have "runs P (dropWhile P rest) = []"
    by (simp only: runs.simps)
  with tw Cons all(1) show ?thesis by (simp del: dropWhile_eq_Nil_conv)
qed

lemma runs_concat: "concat (runs P as) = filter P as"
proof (induction P as rule: runs.induct)
  case (1 P)
  then show ?case by simp
next
  case (2 P a as)
  show ?case
  proof (cases "P a")
    case True
    have "\<forall>b \<in> set (takeWhile P as). P b"
      using set_takeWhileD by fastforce
    then have tw: "filter P (takeWhile P as) = takeWhile P as"
      by (simp add: filter_id_conv)
    have "filter P as = filter P (takeWhile P as @ dropWhile P as)"
      by simp
    also have "\<dots> = takeWhile P as @ filter P (dropWhile P as)"
      using tw by (simp only: filter_append)
    finally have "filter P as = takeWhile P as @ filter P (dropWhile P as)" .
    moreover have "concat (runs P (dropWhile P as)) = filter P (dropWhile P as)"
      using True by (rule "2.IH"(1))
    ultimately show ?thesis using True by simp
  next
    case False
    with 2 show ?thesis by simp
  qed
qed

lemma runs_members:
  "r \<in> set (runs P as) \<Longrightarrow> r \<noteq> [] \<and> (\<forall>a \<in> set r. P a)"
proof (induction P as rule: runs.induct)
  case (1 P)
  then show ?case by simp
next
  case (2 P a as)
  show ?case
  proof (cases "P a")
    case True
    with "2.prems" have "r = a # takeWhile P as \<or> r \<in> set (runs P (dropWhile P as))"
      by simp
    then show ?thesis
    proof
      assume r: "r = a # takeWhile P as"
      have "\<forall>b \<in> set (takeWhile P as). P b"
        using set_takeWhileD by fastforce
      with r True show ?thesis by simp
    next
      assume "r \<in> set (runs P (dropWhile P as))"
      with "2.IH"(1) True show ?thesis by blast
    qed
  next
    case False
    with "2.prems" have "r \<in> set (runs P as)" by simp
    with "2.IH"(2) False show ?thesis by blast
  qed
qed

lemma runs_split:
  "\<not> P b \<Longrightarrow> runs P (as @ b # bs) = runs P as @ runs P bs"
proof (induction P as rule: runs.induct)
  case (1 P)
  then show ?case by simp
next
  case (2 P a as)
  show ?case
  proof (cases "P a")
    case True
    have tw: "takeWhile P (as @ b # bs) = takeWhile P as"
    proof (cases "\<forall>c \<in> set as. P c")
      case True
      then have "takeWhile P (as @ b # bs) = as @ takeWhile P (b # bs)"
        by (intro takeWhile_append2) simp
      also have "\<dots> = as" using "2.prems" by simp
      also have "as = takeWhile P as"
        using True by (intro sym [of "takeWhile P as" as]) (simp add: takeWhile_eq_all_conv)
      finally show ?thesis .
    next
      case False
      then obtain c where "c \<in> set as" "\<not> P c" by blast
      then show ?thesis by (rule takeWhile_append1)
    qed
    have dw: "dropWhile P (as @ b # bs) = dropWhile P as @ b # bs"
    proof (cases "\<forall>c \<in> set as. P c")
      case True
      then have "dropWhile P (as @ b # bs) = dropWhile P (b # bs)"
        by (intro dropWhile_append2) simp
      also have "\<dots> = [] @ b # bs" using "2.prems" by simp
      also have "[] = dropWhile P as"
        using True by (intro sym [of "dropWhile P as" "[]"]) (simp add: dropWhile_eq_Nil_conv)
      finally show ?thesis .
    next
      case False
      then obtain c where "c \<in> set as" "\<not> P c" by blast
      then show ?thesis by (rule dropWhile_append1)
    qed
    have "runs P (dropWhile P as @ b # bs) = runs P (dropWhile P as) @ runs P bs"
      using True "2.prems" by (rule "2.IH"(1))
    with True tw dw show ?thesis by simp
  next
    case False
    with "2.IH"(2) "2.prems" show ?thesis by simp
  qed
qed

lemma splitSegments_runs:
  "splitSegments path sz ps segs cur =
     segs @ filter (\<lambda>r. length r > 1) (pendingRuns (\<lambda>p. \<not> withinRadius (sz / 2) path p) cur ps)"
proof (induction ps arbitrary: segs cur)
  case Nil
  then show ?case by (simp add: pendingRuns_def)
next
  case (Cons p ps)
  show ?case
  proof (cases "withinRadius (sz / 2) path p")
    case True
    then show ?thesis
      by (simp add: Cons.IH shouldErase_withinRadius pendingRuns_def)
  next
    case False
    then show ?thesis
      by (simp add: Cons.IH shouldErase_withinRadius pendingRuns_def)
  qed
qed

lemma splitSegments_surviving:
  "splitSegments path sz ps [] [] = survivingRuns (sz / 2) path ps"
  by (simp add: splitSegments_runs pendingRuns_def survivingRuns_def)

lemma segmentElements_later:
  "segmentElements gen n el False segs =
     (map (\<lambda>(seg, i). el\<lparr>points := Some seg, id_el := i\<rparr>)
        (zip segs (map (\<lambda>i. Some (gen i)) [n..<n + length segs])),
      n + length segs)"
proof (induction segs arbitrary: n)
  case Nil
  then show ?case by simp
next
  case (Cons seg segs)
  have "[n..<n + length (seg # segs)] = n # [n + 1..<(n + 1) + length segs]"
    by (simp add: upt_rec)
  then show ?case
    by (simp add: Cons.IH del: upt_Suc)
qed

lemma segmentElements_first:
  "segmentElements gen n el True segs =
     (map (\<lambda>(seg, i). el\<lparr>points := Some seg, id_el := i\<rparr>)
        (zip segs (runIds gen n (id_el el) (length segs))),
      n + (length segs - 1))"
  by (cases segs) (simp_all add: segmentElements_later runIds_def)

lemma brush_not_eraser: "type el = OfTool Brush \<Longrightarrow> \<not> isEraserElement el"
  by (simp add: isEraserElement_def)

text \<open>
  C4 (as stated) builds the runs from points that are each farther than \<open>r\<close> from
  every point of the eraser path. With the eraser at \<open>(5, 0)\<close> and brush size 10
  (\<open>r = 5\<close>), the stroke through \<open>(0, 0)\<close> and \<open>(-1, 0)\<close> comes back whole, though
  its point \<open>(0, 0)\<close> is at distance exactly 5 and not farther: the test is
  \<open>distance < eraserSize / 2\<close>. Runs of points farther than 5 would leave the one
  point \<open>(-1, 0)\<close>, and no surviving run.
\<close>

theorem C4_run_holds_point_at_radius:
  "eraseElement (\<lambda>k. ''fresh'') 0 [pt 5 0] 10 (strokeOf ''s'' [pt 0 0, pt (- 1) 0])
     = ([strokeOf ''s'' [pt 0 0, pt (- 1) 0]], 0) \<and>
   \<not> fartherThan (10 / 2) [pt 5 0] (pt 0 0) \<and>
   filter (\<lambda>run. length run > 1) (runs (fartherThan (10 / 2) [pt 5 0]) [pt 0 0, pt (- 1) 0]) = []"
proof -
  have d0: "distance (pt 0 0) (pt 5 0) = 5" by (simp add: distance_def pt_def)
  have d1: "distance (pt (- 1) 0) (pt 5 0) = 6" by (simp add: distance_def pt_def)
  have a: "eraseElement (\<lambda>k. ''fresh'') 0 [pt 5 0] 10 (strokeOf ''s'' [pt 0 0, pt (- 1) 0])
     = ([strokeOf ''s'' [pt 0 0, pt (- 1) 0]], 0)"
    by (simp add: eraseElement_def isEraserElement_def strokeOf_def d0 d1)
  have b: "\<not> fartherThan (10 / 2) [pt 5 0] (pt 0 0)"
    by (simp add: fartherThan_def d0)
  have c: "fartherThan (10 / 2) [pt 5 0] (pt (- 1) 0)"
    by (simp add: fartherThan_def d1)
  have "runs (fartherThan (10 / 2) [pt 5 0]) [pt 0 0, pt (- 1) 0] = [[pt (- 1) 0]]"
    using b c by simp
  with a b show ?thesis by simp
qed

text \<open>
  C4 (amended). For a brush stroke with more than one point, the pixel eraser with
  path \<open>P\<close> and radius \<open>r = eraserSize / 2\<close> discards the points closer than \<open>r\<close> to
  some point of \<open>P\<close>, splits the others (those at distance \<open>r\<close> or more from every
  point of \<open>P\<close>) into their maximal runs of consecutive points, and pushes one element
  for each run of more than one point: a copy of the stroke with the run as its
  points. The first of these elements keeps the identifier of the stroke, each later
  one takes the next result of \<open>generateId\<close>.
\<close>

theorem C4_pixel_eraser_splits_stroke:
  assumes "type el = OfTool Brush" and "points el = Some ps" and "length ps > 1"
  shows "eraseElement gen n path sz el =
     (map (\<lambda>(run, i). el\<lparr>points := Some run, id_el := i\<rparr>)
        (zip (survivingRuns (sz / 2) path ps)
             (runIds gen n (id_el el) (length (survivingRuns (sz / 2) path ps)))),
      n + (length (survivingRuns (sz / 2) path ps) - 1))"
  using assms
  by (simp add: eraseElement_def brush_not_eraser splitSegments_surviving segmentElements_first)

theorem C4_pixel_eraser_splits_stroke_witness:
  "type (strokeOf ''s'' [pt 0 0, pt 1 0, pt 2 0, pt 3 0, pt 4 0]) = OfTool Brush \<and>
   points (strokeOf ''s'' [pt 0 0, pt 1 0, pt 2 0, pt 3 0, pt 4 0])
     = Some [pt 0 0, pt 1 0, pt 2 0, pt 3 0, pt 4 0] \<and>
   length [pt 0 0, pt 1 0, pt 2 0, pt 3 0, pt 4 0] > 1 \<and>
   eraseElement (\<lambda>k. ''fresh'') 0 [pt 2 0] 1 (strokeOf ''s'' [pt 0 0, pt 1 0, pt 2 0, pt 3 0, pt 4 0])
     = ([strokeOf ''s'' [pt 0 0, pt 1 0], strokeOf ''fresh'' [pt 3 0, pt 4 0]], 1)"
proof -
  let ?ps = "[pt 0 0, pt 1 0, pt 2 0, pt 3 0, pt 4 0]"
  have t: "type (strokeOf ''s'' ?ps) = OfTool Brush" by (simp add: strokeOf_def)
  have p: "points (strokeOf ''s'' ?ps) = Some ?ps" by (simp add: strokeOf_def)
  have l: "length ?ps > 1" by simp
  have r: "survivingRuns (1 / 2) [pt 2 0] ?ps = [[pt 0 0, pt 1 0], [pt 3 0, pt 4 0]]"
    by (simp add: survivingRuns_def withinRadius_def distance_def pt_def)
  from C4_pixel_eraser_splits_stroke [OF t p l, of "\<lambda>k. ''fresh''" 0 "[pt 2 0]" 1] r t p l
  show ?thesis
    by (simp add: runIds_def strokeOf_def)
qed

lemma liesWithin_not_farther: "liesWithin r path p \<longleftrightarrow> \<not> fartherThan r path p"
  by (auto simp add: liesWithin_def fartherThan_def not_less)

text \<open>
  C5 (as stated) has the stroke eraser delete every element with a defining point
  within \<open>r\<close> of an eraser-path point. With the eraser at \<open>(5, 0)\<close> and
  \<open>eraserSize = 10\<close> (\<open>r = 5\<close>), the stroke through \<open>(0, 0)\<close> and \<open>(-1, 0)\<close> has its
  point \<open>(0, 0)\<close> at distance exactly 5, within \<open>r\<close>, and the stroke eraser keeps it:
  the test is \<open>distance < eraserSize / 2\<close>.
\<close>

theorem C5_element_at_radius_is_kept:
  "points (strokeOf ''s'' [pt 0 0, pt (- 1) 0]) = Some [pt 0 0, pt (- 1) 0] \<and>
   distance (pt 0 0) (pt 5 0) = 10 / 2 \<and>
   liesWithin (10 / 2) [pt 5 0] (pt 0 0) \<and>
   \<not> isEraserElement (strokeOf ''s'' [pt 0 0, pt (- 1) 0]) \<and>
   strokeErase [pt 5 0] 10 [strokeOf ''s'' [pt 0 0, pt (- 1) 0]]
     = [strokeOf ''s'' [pt 0 0, pt (- 1) 0]]"
proof -
  have d0: "distance (pt 0 0) (pt 5 0) = 5" by (simp add: distance_def pt_def)
  have d1: "distance (pt (- 1) 0) (pt 5 0) = 6" by (simp add: distance_def pt_def)
  have w: "liesWithin (10 / 2) [pt 5 0] (pt 0 0)"
    by (simp add: liesWithin_def d0)
  have k: "strokeErase [pt 5 0] 10 [strokeOf ''s'' [pt 0 0, pt (- 1) 0]]
     = [strokeOf ''s'' [pt 0 0, pt (- 1) 0]]"
    by (simp add: strokeErase_def strokeEraseKeeps_def isEraserElement_def intersects_def
        strokeOf_def d0 d1)
  from d0 w k show ?thesis
    by (simp add: strokeOf_def isEraserElement_def)
qed

text \<open>
  C5 (amended). On a committed list (which holds no eraser path), the stroke eraser
  with path \<open>P\<close> and radius \<open>r = eraserSize / 2\<close> removes exactly the elements that
  have a defining point strictly within \<open>r\<close> of some point of \<open>P\<close>, that is, at a
  distance less than \<open>r\<close>; the result is the list of the other elements, each as it
  was and in the same order.
\<close>

theorem C5_stroke_eraser_deletes_touched:
  assumes "\<forall>el \<in> set els. \<not> isEraserElement el"
  shows "strokeErase path sz els = filter (\<lambda>el. \<not> touched (sz / 2) path el) els"
  unfolding strokeErase_def
  by (rule filter_cong [OF refl]) (simp add: strokeEraseKeeps_def intersects_touched assms)

theorem C5_stroke_eraser_deletes_touched_witness:
  "\<not> isEraserElement (strokeOf ''s'' [pt 0 0, pt 1 0]) \<and>
   \<not> isEraserElement (strokeOf ''t'' [pt 10 0, pt 11 0]) \<and>
   strokeErase [pt 0 0] 2 [strokeOf ''s'' [pt 0 0, pt 1 0], strokeOf ''t'' [pt 10 0, pt 11 0]]
     = [strokeOf ''t'' [pt 10 0, pt 11 0]]"
proof -
  have h: "\<forall>el \<in> set [strokeOf ''s'' [pt 0 0, pt 1 0], strokeOf ''t'' [pt 10 0, pt 11 0]]. \<not> isEraserElement el"
    by (simp add: isEraserElement_def strokeOf_def)
  have a: "touched (2 / 2) [pt 0 0] (strokeOf ''s'' [pt 0 0, pt 1 0])"
    by (simp add: touched_def definingPoints_def withinRadius_def distance_def strokeOf_def pt_def)
  have b: "\<not> touched (2 / 2) [pt 0 0] (strokeOf ''t'' [pt 10 0, pt 11 0])"
    by (simp add: touched_def definingPoints_def withinRadius_def distance_def strokeOf_def pt_def)
  from C5_stroke_eraser_deletes_touched [OF h, of "[pt 0 0]" 2] a b h
  show ?thesis by simp
qed

lemma pixelErase_keeps:
  assumes "\<And>k. eraseElement gen k path sz el = ([el], k)"
  shows "el \<in> set els \<Longrightarrow> el \<in> set (pixelErase gen n path sz els)"
proof (induction els arbitrary: n)
  case Nil
  then show ?case by simp
next
  case (Cons e els)
  obtain pushed n' where e: "eraseElement gen n path sz e = (pushed, n')"
    by (cases "eraseElement gen n path sz e")
  show ?case
  proof (cases "el = e")
    case True
    with assms [of n] show ?thesis by simp
  next
    case False
    with Cons.prems have "el \<in> set els" by simp
    then have "el \<in> set (pixelErase gen n' path sz els)" by (rule Cons.IH)
    with e show ?thesis by simp
  qed
qed

lemma eraseElement_untouched_stroke:
  assumes "type el = OfTool Brush" and "points el = Some ps"
    and "\<forall>p \<in> set ps. \<not> withinRadius (sz / 2) path p"
  shows "eraseElement gen n path sz el = ([el], n)"
proof (cases "length ps > 1")
  case True
  then have "ps \<noteq> []" by auto
  with assms(3) have "runs (\<lambda>p. \<not> withinRadius (sz / 2) path p) ps = [ps]"
    by (simp add: runs_all_kept)
  with True have "survivingRuns (sz / 2) path ps = [ps]"
    by (simp add: survivingRuns_def)
  moreover have "el\<lparr>points := Some ps, id_el := id_el el\<rparr> = el"
    using assms(2) by simp
  ultimately show ?thesis
    using assms(1,2) True
    by (simp add: eraseElement_def brush_not_eraser splitSegments_surviving)
next
  case False
  have "\<not> touched (sz / 2) path el"
    using assms(2,3) by (simp add: touched_def definingPoints_def)
  with False assms(1,2) show ?thesis
    by (simp add: eraseElement_def brush_not_eraser shouldDelete_intersects intersects_touched)
qed

text \<open>
  C9. A brush stroke none of whose points lies within the eraser radius of a point
  of the eraser path goes through the pixel eraser as it is: the loop body pushes
  the stroke itself, with its points and its identifier, and draws no new identifier;
  so the stroke is in the list the pixel eraser produces from any list that holds it.
\<close>

theorem C9_pixel_eraser_identity:
  assumes "type el = OfTool Brush" and "points el = Some ps"
    and "\<forall>p \<in> set ps. \<not> withinRadius (sz / 2) path p"
  shows "eraseElement gen n path sz el = ([el], n) \<and>
         (el \<in> set els \<longrightarrow> el \<in> set (pixelErase gen n path sz els))"
proof -
  have "\<And>k. eraseElement gen k path sz el = ([el], k)"
    using assms by (rule eraseElement_untouched_stroke)
  then show ?thesis
    by (auto intro: pixelErase_keeps)
qed

theorem C9_pixel_eraser_identity_witness:
  "type (strokeOf ''s'' [pt 0 0, pt 1 0]) = OfTool Brush \<and>
   points (strokeOf ''s'' [pt 0 0, pt 1 0]) = Some [pt 0 0, pt 1 0] \<and>
   \<not> withinRadius (2 / 2) [pt 5 0] (pt 0 0) \<and>
   \<not> withinRadius (2 / 2) [pt 5 0] (pt 1 0) \<and>
   eraseElement (\<lambda>k. ''fresh'') 0 [pt 5 0] 2 (strokeOf ''s'' [pt 0 0, pt 1 0])
     = ([strokeOf ''s'' [pt 0 0, pt 1 0]], 0) \<and>
   strokeOf ''s'' [pt 0 0, pt 1 0]
     \<in> set (pixelErase (\<lambda>k. ''fresh'') 0 [pt 5 0] 2 [strokeOf ''s'' [pt 0 0, pt 1 0]])"
proof -
  have t: "type (strokeOf ''s'' [pt 0 0, pt 1 0]) = OfTool Brush" by (simp add: strokeOf_def)
  have p: "points (strokeOf ''s'' [pt 0 0, pt 1 0]) = Some [pt 0 0, pt 1 0]" by (simp add: strokeOf_def)
  have h: "\<forall>p \<in> set [pt 0 0, pt 1 0]. \<not> withinRadius (2 / 2) [pt 5 0] p"
    by (simp add: withinRadius_def distance_def pt_def)
  from C9_pixel_eraser_identity [OF t p h, of "\<lambda>k. ''fresh''" 0 "[strokeOf ''s'' [pt 0 0, pt 1 0]]"] t p h
  show ?thesis by simp
qed

section \<open>Dragging a selected element\<close>

lemma distance_products:
  "sqrt ((x p - x q) * (x p - x q) + (y p - y q) * (y p - y q)) = distance p q"
  by (simp add: distance_def power2_eq_square)

lemma getMousePos_view:
  "scale s' = scale s \<Longrightarrow> offset s' = offset s \<Longrightarrow> getMousePos canvas s' e = getMousePos canvas s e"
  by (cases canvas) (simp_all add: getMousePos_def)

lemma move_under_threshold:
  assumes "\<not> isPanning s" and "\<not> isSelecting s"
    and "isDragging s" and "truthyString (selectedElementId s)"
    and "dragStart s = Some press" and "\<not> hasDragStarted s"
    and "distance (getMousePos canvas s e) press < 3"
  shows "handleMouseMove tool canvas s e = s"
  using assms by (simp add: handleMouseMove_def Let_def distance_products)

lemma moves_under_threshold:
  assumes "\<not> isPanning s" and "\<not> isSelecting s"
    and "isDragging s" and "truthyString (selectedElementId s)"
    and "dragStart s = Some press" and "\<not> hasDragStarted s"
  shows "\<forall>e \<in> set es. distance (getMousePos canvas s e) press < 3 \<Longrightarrow>
         foldl (handleMouseMove tool canvas) s es = s"
proof (induction es)
  case Nil
  then show ?case by simp
next
  case (Cons e es)
  then have "handleMouseMove tool canvas s e = s"
    using assms by (simp add: move_under_threshold)
  with Cons show ?case by simp
qed

lemma press_selects:
  assumes "idle s" and "\<not> panClick e"
    and "findElementAtPoint (elements s) (getMousePos canvas s e) = Some el"
  shows "isDragging (handleMouseDown Select settings newId canvas s e)"
    and "dragStart (handleMouseDown Select settings newId canvas s e) = Some (getMousePos canvas s e)"
    and "\<not> hasDragStarted (handleMouseDown Select settings newId canvas s e)"
    and "selectedElementId (handleMouseDown Select settings newId canvas s e) = idOrNull (id_el el)"
    and "\<not> isPanning (handleMouseDown Select settings newId canvas s e)"
    and "\<not> isSelecting (handleMouseDown Select settings newId canvas s e)"
    and "elements (handleMouseDown Select settings newId canvas s e) = elements s"
    and "history (handleMouseDown Select settings newId canvas s e) = history s"
    and "historyStep (handleMouseDown Select settings newId canvas s e) = historyStep s"
    and "scale (handleMouseDown Select settings newId canvas s e) = scale s"
    and "offset (handleMouseDown Select settings newId canvas s e) = offset s"
  using assms by (auto simp add: handleMouseDown_def idle_def panClick_def Let_def)

lemma release_without_drag:
  assumes "\<not> isPanning s" and "\<not> isSelecting s" and "isDragging s" and "\<not> hasDragStarted s"
  shows "elements (handleMouseUp gen s) = elements s"
    and "history (handleMouseUp gen s) = history s"
    and "historyStep (handleMouseUp gen s) = historyStep s"
  using assms by (simp_all add: handleMouseUp_def Let_def)

lemma oneStroke_fields:
  "elements oneStroke = [strokeOf ''a'' [pt 0 0, pt 10 0]]"
  "history oneStroke = [[strokeOf ''a'' [pt 0 0, pt 10 0]]]"
  "historyStep oneStroke = 0"
  "scale oneStroke = 1" "offset oneStroke = \<lparr>x = 0, y = 0\<rparr>"
  "idle oneStroke"
  by (simp_all add: oneStroke_def commit_fields idle_def commit_def saveToHistory_def initialState_def)

lemma pos_oneStroke: "getMousePos canvasAtOrigin oneStroke (mouseAt a b) = pt a b"
  by (simp add: getMousePos_def canvasAtOrigin_def mouseAt_def oneStroke_fields pt_def)

lemma hit_oneStroke:
  "findElementAtPoint (elements oneStroke) (pt 0 0) = Some (strokeOf ''a'' [pt 0 0, pt 10 0])"
  by (simp add: oneStroke_fields findElementAtPoint_def hitsElement_def hitsStroke_def
      strokeOf_def distance_def pt_def numberOr_def)

lemma no_pan: "\<not> panClick (mouseAt a b)"
  by (simp add: panClick_def mouseAt_def)

text \<open>
  C6. The claim has a release produce a history entry only if the 3-unit threshold
  was exceeded, and the comment in the source says the same (\<open>Only start dragging
  if moved more than 3 pixels\<close>). The guard that ignores a move is \<open>distance < 3\<close>: after a press
  at \<open>(0, 0)\<close> on the stroke, one move to \<open>(3, 0)\<close>, at distance exactly 3, starts
  the drag, the stroke is translated, and the release pushes a second snapshot.
\<close>

theorem C6_drag_starts_at_three_units:
  "distance (getMousePos canvasAtOrigin oneStroke (mouseAt 3 0))
            (getMousePos canvasAtOrigin oneStroke (mouseAt 0 0)) = 3 \<and>
   history oneStroke = [[strokeOf ''a'' [pt 0 0, pt 10 0]]] \<and>
   history (handleMouseUp (\<lambda>k. ''fresh'') (handleMouseMove Select canvasAtOrigin
      (handleMouseDown Select (settingsOfSize 3) ''n'' canvasAtOrigin oneStroke (mouseAt 0 0))
      (mouseAt 3 0)))
     = [[strokeOf ''a'' [pt 0 0, pt 10 0]], [strokeOf ''a'' [pt 3 0, pt 13 0]]]"
proof -
  define s1 where "s1 = handleMouseDown Select (settingsOfSize 3) ''n'' canvasAtOrigin oneStroke (mouseAt 0 0)"
  have d: "distance (getMousePos canvasAtOrigin oneStroke (mouseAt 3 0))
            (getMousePos canvasAtOrigin oneStroke (mouseAt 0 0)) = 3"
    by (simp add: pos_oneStroke distance_def pt_def)
  have h3: "findElementAtPoint (elements oneStroke) (getMousePos canvasAtOrigin oneStroke (mouseAt 0 0))
     = Some (strokeOf ''a'' [pt 0 0, pt 10 0])"
    by (simp add: pos_oneStroke hit_oneStroke)
  note p = press_selects [OF oneStroke_fields(6) no_pan h3, of "settingsOfSize 3" "''n''", folded s1_def]
  have sel: "selectedElementId s1 = Some ''a''"
    using p(4) by (simp add: idOrNull_def truthyString_def strokeOf_def)
  have pos: "getMousePos canvasAtOrigin s1 (mouseAt 3 0) = pt 3 0"
    using getMousePos_view [OF p(10) p(11)] by (simp add: pos_oneStroke)
  define s2 where "s2 = handleMouseMove Select canvasAtOrigin s1 (mouseAt 3 0)"
  have m: "elements s2 = [strokeOf ''a'' [pt 3 0, pt 13 0]]" "hasDragStarted s2" "isDragging s2"
      "\<not> isPanning s2" "\<not> isSelecting s2" "selectedElementId s2 = Some ''a''"
      "history s2 = history oneStroke" "historyStep s2 = 0"
    unfolding s2_def
    using p sel
    by (simp_all add: handleMouseMove_def Let_def pos pos_oneStroke truthyString_def pt_def
        dragElement_def translatePoint_def strokeOf_def oneStroke_fields)
  have "history (handleMouseUp (\<lambda>k. ''fresh'') s2)
     = [[strokeOf ''a'' [pt 0 0, pt 10 0]], [strokeOf ''a'' [pt 3 0, pt 13 0]]]"
    using m by (simp add: handleMouseUp_def Let_def truthyString_def saveToHistory_def oneStroke_fields)
  with d show ?thesis
    by (simp add: s2_def s1_def oneStroke_fields)
qed

text \<open>
  The rest of the drag protocol. A press with the select tool on an element starts a
  candidate drag. While every pointer movement stays under 3 units from the press
  point, the moves change nothing at all: the state after them is the state after the
  press, and the elements are those before the press. A release after such moves, or
  after no move (a plain click), leaves the history stack, the cursor and the elements
  as they were.
\<close>

theorem drag_under_threshold:
  assumes "idle s" and "\<not> panClick e0"
    and "findElementAtPoint (elements s) (getMousePos canvas s e0) = Some el"
    and "truthyString (id_el el)"
    and "\<forall>e \<in> set es. distance (getMousePos canvas s e) (getMousePos canvas s e0) < 3"
  shows "foldl (handleMouseMove tool canvas) (handleMouseDown Select settings newId canvas s e0) es
           = handleMouseDown Select settings newId canvas s e0 \<and>
         elements (foldl (handleMouseMove tool canvas)
           (handleMouseDown Select settings newId canvas s e0) es) = elements s \<and>
         history (handleMouseUp gen (foldl (handleMouseMove tool canvas)
           (handleMouseDown Select settings newId canvas s e0) es)) = history s \<and>
         historyStep (handleMouseUp gen (foldl (handleMouseMove tool canvas)
           (handleMouseDown Select settings newId canvas s e0) es)) = historyStep s \<and>
         elements (handleMouseUp gen (foldl (handleMouseMove tool canvas)
           (handleMouseDown Select settings newId canvas s e0) es)) = elements s"
proof -
  define s1 where "s1 = handleMouseDown Select settings newId canvas s e0"
  note p = press_selects [OF assms(1,2,3), of settings newId, folded s1_def]
  have sel: "truthyString (selectedElementId s1)"
    using p(4) assms(4) by (simp add: idOrNull_def)
  have same: "\<forall>e \<in> set es. distance (getMousePos canvas s1 e) (getMousePos canvas s e0) < 3"
    using assms(5) getMousePos_view [OF p(10) p(11)] by simp
  have stay: "foldl (handleMouseMove tool canvas) s1 es = s1"
    using moves_under_threshold [OF p(5) p(6) p(1) sel p(2) p(3) same] .
  have "elements (handleMouseUp gen s1) = elements s"
      "history (handleMouseUp gen s1) = history s"
      "historyStep (handleMouseUp gen s1) = historyStep s"
    using release_without_drag [OF p(5) p(6) p(1) p(3), of gen] p(7,8,9) by simp_all
  with stay p(7) show ?thesis
    unfolding s1_def [symmetric] by simp
qed

theorem drag_under_threshold_example:
  "idle oneStroke \<and> \<not> panClick (mouseAt 0 0) \<and>
   findElementAtPoint (elements oneStroke) (getMousePos canvasAtOrigin oneStroke (mouseAt 0 0))
     = Some (strokeOf ''a'' [pt 0 0, pt 10 0]) \<and>
   truthyString (id_el (strokeOf ''a'' [pt 0 0, pt 10 0])) \<and>
   distance (getMousePos canvasAtOrigin oneStroke (mouseAt 1 0))
            (getMousePos canvasAtOrigin oneStroke (mouseAt 0 0)) < 3 \<and>
   distance (getMousePos canvasAtOrigin oneStroke (mouseAt 2 0))
            (getMousePos canvasAtOrigin oneStroke (mouseAt 0 0)) < 3 \<and>
   history (handleMouseUp (\<lambda>k. ''fresh'') (foldl (handleMouseMove Select canvasAtOrigin)
      (handleMouseDown Select (settingsOfSize 3) ''n'' canvasAtOrigin oneStroke (mouseAt 0 0))
      [mouseAt 1 0, mouseAt 2 0])) = [[strokeOf ''a'' [pt 0 0, pt 10 0]]] \<and>
   elements (handleMouseUp (\<lambda>k. ''fresh'') (foldl (handleMouseMove Select canvasAtOrigin)
      (handleMouseDown Select (settingsOfSize 3) ''n'' canvasAtOrigin oneStroke (mouseAt 0 0))
      [mouseAt 1 0, mouseAt 2 0])) = [strokeOf ''a'' [pt 0 0, pt 10 0]]"
proof -
  have h1: "idle oneStroke" by (rule oneStroke_fields)
  have h2: "\<not> panClick (mouseAt 0 0)" by (rule no_pan)
  have h3: "findElementAtPoint (elements oneStroke) (getMousePos canvasAtOrigin oneStroke (mouseAt 0 0))
     = Some (strokeOf ''a'' [pt 0 0, pt 10 0])"
    by (simp add: pos_oneStroke hit_oneStroke)
  have h4: "truthyString (id_el (strokeOf ''a'' [pt 0 0, pt 10 0]))"
    by (simp add: truthyString_def strokeOf_def)
  have h5: "\<forall>e \<in> set [mouseAt 1 0, mouseAt 2 0].
      distance (getMousePos canvasAtOrigin oneStroke e) (getMousePos canvasAtOrigin oneStroke (mouseAt 0 0)) < 3"
    by (simp add: pos_oneStroke distance_def pt_def)
  note c = drag_under_threshold [OF h1 h2 h3 h4 h5, of Select "settingsOfSize 3" "''n''" "\<lambda>k. ''fresh''"]
  from c have a: "history (handleMouseUp (\<lambda>k. ''fresh'') (foldl (handleMouseMove Select canvasAtOrigin)
      (handleMouseDown Select (settingsOfSize 3) ''n'' canvasAtOrigin oneStroke (mouseAt 0 0))
      [mouseAt 1 0, mouseAt 2 0])) = history oneStroke"
    by (elim conjE)
  from c have b: "elements (handleMouseUp (\<lambda>k. ''fresh'') (foldl (handleMouseMove Select canvasAtOrigin)
      (handleMouseDown Select (settingsOfSize 3) ''n'' canvasAtOrigin oneStroke (mouseAt 0 0))
      [mouseAt 1 0, mouseAt 2 0])) = elements oneStroke"
    by (elim conjE)
  from h5 have h5': "distance (getMousePos canvasAtOrigin oneStroke (mouseAt 1 0))
            (getMousePos canvasAtOrigin oneStroke (mouseAt 0 0)) < 3"
      "distance (getMousePos canvasAtOrigin oneStroke (mouseAt 2 0))
            (getMousePos canvasAtOrigin oneStroke (mouseAt 0 0)) < 3"
    by simp_all
  from a b h1 h2 h3 h4 h5' show ?thesis
    by (simp only: oneStroke_fields simp_thms)
qed

section \<open>Eraser gestures and their radius\<close>






lemma strokeErase_filter:
  "strokeErase path sz els = filter (\<lambda>el. \<not> isEraserElement el \<and> \<not> touched (sz / 2) path el) els"
  unfolding strokeErase_def
  by (rule filter_cong [OF refl]) (simp add: strokeEraseKeeps_def intersects_touched)



section \<open>Selection export\<close>

text \<open>
  C7. A crop-export request gets exactly one call of its callback. Without a selection
  rectangle, without the canvas or its context, or without a context for the temporary
  canvas, that call passes null.
\<close>

theorem C7_selection_callback_once:
  "length (handleGetSelection b s) = 1 \<and>
   (selectionRect s = None \<or> \<not> canvasMounted b \<or> \<not> canvasContext b \<or> \<not> tempContext b
      \<longrightarrow> handleGetSelection b s = [None])"
  by (cases "selectionRect s") (simp_all add: handleGetSelection_def Let_def)

theorem C7_selection_callback_once_witness:
  "selectionRect initialState = None \<and>
   length (handleGetSelection \<lparr>canvasMounted = True, canvasContext = True, tempContext = True,
      jpegOfRegion = (\<lambda>a b c d. ''data:image/jpeg'')\<rparr> initialState) = 1 \<and>
   handleGetSelection \<lparr>canvasMounted = True, canvasContext = True, tempContext = True,
      jpegOfRegion = (\<lambda>a b c d. ''data:image/jpeg'')\<rparr> initialState = [None]"
proof -
  have n: "selectionRect initialState = None" by (simp add: initialState_def)
  from C7_selection_callback_once [of "\<lparr>canvasMounted = True, canvasContext = True, tempContext = True,
      jpegOfRegion = (\<lambda>a b c d. ''data:image/jpeg'')\<rparr>" initialState] n
  show ?thesis by simp
qed

section \<open>Committed lists hold no eraser path\<close>

text \<open>
  The hypothesis of C5 on the committed list holds in every state that the pointer
  gestures and the history operations reach from the initial state: the eraser
  branches of \<open>handleMouseUp\<close> never push the eraser path, and an eraser path
  always has its points, so the last branch never appends one.
\<close>

lemma segmentElements_type:
  "el' \<in> set (fst (segmentElements gen n el isFirst segs)) \<Longrightarrow> type el' = type el"
  by (cases isFirst) (auto simp add: segmentElements_first segmentElements_later)

lemma eraseElement_noErasers:
  "el' \<in> set (fst (eraseElement gen n path sz el)) \<Longrightarrow> \<not> isEraserElement el'"
proof (cases "isEraserElement el")
  case True
  assume "el' \<in> set (fst (eraseElement gen n path sz el))"
  with True show ?thesis by (simp add: eraseElement_def)
next
  case False
  assume "el' \<in> set (fst (eraseElement gen n path sz el))"
  then have "type el' = type el"
    using False
    by (auto simp add: eraseElement_def split: if_splits dest: segmentElements_type)
  with False show ?thesis by (simp add: isEraserElement_def)
qed

lemma pixelErase_noErasers: "noErasers (pixelErase gen n path sz els)"
proof (induction els arbitrary: n)
  case Nil
  then show ?case by (simp add: noErasers_def)
next
  case (Cons el els)
  obtain pushed n' where e: "eraseElement gen n path sz el = (pushed, n')"
    by (cases "eraseElement gen n path sz el")
  have "\<forall>el' \<in> set pushed. \<not> isEraserElement el'"
    using eraseElement_noErasers [of _ gen n path sz el] e by simp
  with Cons [of n'] e show ?case by (auto simp add: noErasers_def)
qed

lemma strokeErase_noErasers: "noErasers (strokeErase path sz els)"
  by (simp add: noErasers_def strokeErase_def strokeEraseKeeps_def)

lemma eraserFree_initial: "eraserFree initialState"
  by (simp add: eraserFree_def noErasers_def initialState_def)

lemma eraserFree_saveToHistory:
  assumes "\<forall>h \<in> set (history s). noErasers h" and "noErasers new"
  shows "\<forall>h \<in> set (history (saveToHistory new s)). noErasers h"
  using assms by (auto simp add: saveToHistory_def Let_def dest: in_set_takeD)

lemma eraserFree_undo: "eraserFree s \<Longrightarrow> eraserFree (handleUndo s)"
  by (auto simp add: eraserFree_def handleUndo_def snapshotOrEmpty_def noErasers_def)

lemma eraserFree_redo: "eraserFree s \<Longrightarrow> eraserFree (handleRedo s)"
  by (auto simp add: eraserFree_def handleRedo_def noErasers_def)

lemma eraserFree_clear: "eraserFree s \<Longrightarrow> eraserFree (handleClear s)"
  by (simp add: eraserFree_def handleClear_def noErasers_def)

lemma eraserFree_down:
  assumes "eraserFree s"
  shows "eraserFree (handleMouseDown tool settings newId canvas s e)"
proof -
  have shape: "tool \<noteq> Eraser \<Longrightarrow> tool \<noteq> StrokeEraser \<Longrightarrow>
      \<not> isEraserElement (shapeElement tool p c b opac i)" for p c b opac i
    by (simp add: isEraserElement_def shapeElement_def)
  have path: "points (pathElement t p c b opac i) \<noteq> None" for t p c b opac i
    by (simp add: pathElement_def)
  show ?thesis
    using assms shape path
    by (auto simp add: eraserFree_def handleMouseDown_def Let_def split: option.splits)
qed

lemma dragElement_type: "isEraserElement (dragElement sel dx dy el) = isEraserElement el"
  by (simp add: dragElement_def isEraserElement_def)

lemma eraserFree_move:
  assumes "eraserFree s"
  shows "eraserFree (handleMouseMove tool canvas s e)"
proof -
  have drag: "noErasers (map (dragElement sel dx dy) (elements s))" for sel dx dy
    using assms by (simp add: eraserFree_def noErasers_def dragElement_type)
  have cur: "isEraserElement (c\<lparr>endPoint := v\<rparr>) = isEraserElement c" for c v
    by (simp add: isEraserElement_def)
  show ?thesis
    using assms drag cur
    by (auto simp add: eraserFree_def handleMouseMove_def Let_def split: option.splits)
qed

lemma eraserFree_commit:
  assumes "\<forall>h \<in> set (history s). noErasers h" and "noErasers new"
  shows "eraserFree ((saveToHistory new (s\<lparr>elements := new\<rparr>))\<lparr>currentElement := None\<rparr>)"
proof -
  have "\<forall>h \<in> set (history (s\<lparr>elements := new\<rparr>)). noErasers h"
    using assms(1) by simp
  then have "\<forall>h \<in> set (history (saveToHistory new (s\<lparr>elements := new\<rparr>))). noErasers h"
    using assms(2) by (rule eraserFree_saveToHistory)
  moreover have "elements (saveToHistory new (s\<lparr>elements := new\<rparr>)) = new"
    by (simp add: saveToHistory_def Let_def)
  ultimately show ?thesis
    using assms(2) by (simp add: eraserFree_def)
qed

lemma eraserFree_finish:
  assumes "eraserFree s" and "currentElement s = Some cur"
  shows "eraserFree (finishGesture gen s cur)"
proof -
  from assms have h: "\<forall>h \<in> set (history s). noErasers h" and e: "noErasers (elements s)"
    and c: "isEraserElement cur \<longrightarrow> points cur \<noteq> None"
    by (simp_all add: eraserFree_def)
  show ?thesis
  proof (cases "type cur = OfTool Eraser \<and> points cur \<noteq> None")
    case True
    then show ?thesis
      using eraserFree_commit [OF h pixelErase_noErasers]
      by (simp add: finishGesture_def Let_def)
  next
    case notPixel: False
    show ?thesis
    proof (cases "type cur = OfTool StrokeEraser \<and> points cur \<noteq> None")
      case True
      with notPixel show ?thesis
        using eraserFree_commit [OF h strokeErase_noErasers]
        by (simp add: finishGesture_def Let_def)
    next
      case False
      with notPixel c have "\<not> isEraserElement cur"
        by (auto simp add: isEraserElement_def)
      with e have "noErasers (elements s @ [cur])"
        by (simp add: noErasers_def)
      from eraserFree_commit [OF h this] notPixel False show ?thesis
        by (auto simp add: finishGesture_def Let_def)
    qed
  qed
qed

lemma eraserFree_up:
  assumes "eraserFree s"
  shows "eraserFree (handleMouseUp gen s)"
proof -
  from assms have h: "\<forall>h \<in> set (history s). noErasers h" and e: "noErasers (elements s)"
    by (simp_all add: eraserFree_def)
  have flags: "eraserFree (s\<lparr>isPanning := False\<rparr>)"
      "eraserFree (s\<lparr>isSelecting := False, isSelectionMode := False\<rparr>)"
      "eraserFree (s\<lparr>isDragging := False, dragStart := None, hasDragStarted := False\<rparr>)"
      "eraserFree (s\<lparr>isDrawing := False\<rparr>)"
    using assms by (simp_all add: eraserFree_def)
  have save: "eraserFree (saveToHistory (elements s)
      (s\<lparr>isDragging := False, dragStart := None, hasDragStarted := False\<rparr>))"
  proof -
    define s1 where "s1 = s\<lparr>isDragging := False, dragStart := None, hasDragStarted := False\<rparr>"
    have "\<forall>h \<in> set (history s1). noErasers h"
      using h by (simp add: s1_def)
    then have "\<forall>h \<in> set (history (saveToHistory (elements s) s1)). noErasers h"
      using e by (rule eraserFree_saveToHistory)
    moreover have "elements (saveToHistory (elements s) s1) = elements s"
        "currentElement (saveToHistory (elements s) s1) = currentElement s"
      by (simp_all add: saveToHistory_def Let_def s1_def)
    ultimately show ?thesis
      using assms unfolding s1_def [symmetric] by (simp add: eraserFree_def)
  qed
  have fin: "currentElement s = Some cur \<Longrightarrow> eraserFree ((finishGesture gen s cur)\<lparr>isDrawing := False\<rparr>)" for cur
    using eraserFree_finish [OF assms, of cur gen] by (simp add: eraserFree_def)
  show ?thesis
    using flags save fin
    by (simp add: handleMouseUp_def Let_def split: option.splits)
qed

lemma eraserFree_event: "eraserFree s \<Longrightarrow> eraserFree (handleEvent canvas s ev)"
  by (cases ev)
    (simp_all add: eraserFree_down eraserFree_move eraserFree_up eraserFree_undo
      eraserFree_redo eraserFree_clear)

lemma eraserFree_reachable: "eraserFree (foldl (handleEvent canvas) initialState evs)"
proof (induction evs rule: rev_induct)
  case Nil
  then show ?case by (simp add: eraserFree_initial)
next
  case (snoc ev evs)
  then show ?case by (simp add: eraserFree_event)
qed

lemma stroke_eraser_on_reachable_list:
  "strokeErase path sz (elements (foldl (handleEvent canvas) initialState evs)) =
     filter (\<lambda>el. \<not> touched (sz / 2) path el) (elements (foldl (handleEvent canvas) initialState evs))"
proof -
  have "noErasers (elements (foldl (handleEvent canvas) initialState evs))"
    using eraserFree_reachable [of canvas evs] by (simp add: eraserFree_def)
  then show ?thesis
    unfolding strokeErase_filter noErasers_def
    by (intro filter_cong [OF refl]) simp
qed

end
